theory Spec2Isabelle
  imports Main "HOL-Library.Word"
begin

section \<open>Python values used by miniconf.py\<close>

text \<open>
  A \<open>bytes\<close> object is a list of octets. The exceptions the modelled statements can raise
  are values of \<open>py_error\<close>; \<open>JSONDecodeError\<close> is what \<open>json.loads\<close> raises and
  \<open>InvalidStateError\<close> what \<open>Future.set_result\<close> raises on a future that is not pending.
\<close>

type_synonym bytes = "8 word list"

datatype py_error =
  KeyError | IndexError | AssertionError | OverflowError | TypeError | ValueError
  | JSONDecodeError | InvalidStateError

text \<open>
  What \<open>json.loads\<close> returns: \<open>None\<close>, a bool, an int, a str, a list or a dict (an
  association list with distinct keys). Floating point numbers are left out of the model.
\<close>

datatype json =
  JNull | JBool bool | JInt int | JStr string | JList "json list" | JObj "(string \<times> json) list"

text \<open>\<open>int.from_bytes(b, 'big')\<close>: any length is accepted, the empty string gives 0.\<close>

definition from_bytes :: "bytes \<Rightarrow> int" where
  "from_bytes b = foldl (\<lambda>acc x. acc * 256 + uint x) 0 b"

text \<open>
  \<open>n.to_bytes(length, 'big')\<close>: raises \<open>OverflowError\<close> for a negative \<open>n\<close> and for one
  that does not fit into \<open>length\<close> octets.
\<close>

fun be_bytes :: "nat \<Rightarrow> int \<Rightarrow> bytes" where
  "be_bytes 0 n = []"
| "be_bytes (Suc k) n = be_bytes k (n div 256) @ [word_of_int n]"

definition to_bytes :: "int \<Rightarrow> nat \<Rightarrow> py_error + bytes" where
  "to_bytes n len = (if n < 0 \<or> 256 ^ len \<le> n then Inl OverflowError else Inr (be_bytes len n))"

section \<open>The session and its collaborators\<close>

text \<open>A message handed to \<open>client.publish\<close>, with the keyword arguments of the call.\<close>

record message =
  topic :: string
  payload :: string
  qos :: nat
  retain :: bool
  response_topic :: string
  correlation_data :: bytes

text \<open>
  The properties of an inbound message: a dict from property names to lists of values,
  of which the handler reads \<open>properties['correlation_data'][0]\<close>.
\<close>

type_synonym properties = "string \<rightharpoonup> bytes list"

text \<open>An \<open>asyncio\<close> future is pending or holds its result.\<close>

datatype future = Pending | Done json

text \<open>
  The fields of a \<open>Miniconf\<close> object (\<open>uuid\<close> holds \<open>self.uuid.hex\<close>), together with the
  state of the two objects it works on: the futures of the running event loop, addressed
  by handle (\<open>next_future\<close> is the first handle not yet given out), and what the MQTT
  client was asked to subscribe to and to publish, in call order. The registry
  \<open>inflight\<close> holds handles, so the future a caller awaits is the one the handler
  completes.
\<close>

record session =
  uuid :: string
  request_id :: int
  prefix :: string
  inflight :: "int \<rightharpoonup> nat"
  futures :: "nat \<Rightarrow> future"
  next_future :: nat
  subscribed :: "string list"
  published :: "message list"

text \<open>
  \<open>Miniconf.__init__\<close> on a client that has published nothing yet; the value of
  \<open>uuid.uuid1().hex\<close> is a parameter.
\<close>

definition init :: "string \<Rightarrow> string \<Rightarrow> session" where
  "init uuid_hex pfx =
     \<lparr>uuid = uuid_hex, request_id = 0, prefix = pfx, inflight = Map.empty,
      futures = (\<lambda>_. Pending), next_future = 0,
      subscribed = [pfx @ ''/response/'' @ uuid_hex], published = []\<rparr>"

text \<open>\<open>asyncio.get_running_loop().create_future()\<close>: a new pending future.\<close>

definition create_future :: "session \<Rightarrow> nat \<times> session" where
  "create_future s =
     (next_future s,
      s\<lparr>futures := (futures s)(next_future s := Pending), next_future := Suc (next_future s)\<rparr>)"

text \<open>\<open>fut.set_result(v)\<close>: raises \<open>InvalidStateError\<close> unless the future is pending.\<close>

definition set_result :: "nat \<Rightarrow> json \<Rightarrow> session \<Rightarrow> py_error + session" where
  "set_result fut v s =
     (case futures s fut of
        Pending \<Rightarrow> Inr (s\<lparr>futures := (futures s)(fut := Done v)\<rparr>)
      | Done _ \<Rightarrow> Inl InvalidStateError)"

text \<open>\<open>self.client.publish(...)\<close>: the message goes out.\<close>

definition publish :: "message \<Rightarrow> session \<Rightarrow> session" where
  "publish m s = s\<lparr>published := published s @ [m]\<rparr>"

section \<open>The response handler\<close>

text \<open>
  \<open>Miniconf._handle_response\<close>. The arguments \<open>_client\<close>, \<open>_topic\<close> and \<open>_qos\<close> are
  not read and are left out; \<open>loads\<close> is \<open>json.loads\<close>, \<open>None\<close> where it raises. The
  result is what the call raises (\<open>Inl\<close>) or that it returns, and the state it leaves.
  Python evaluates \<open>self.inflight[request_id]\<close> before the argument
  \<open>json.loads(payload)\<close>, and the \<open>del\<close> statement only after \<open>set_result\<close> returned.
\<close>

definition handle_response ::
  "(string \<Rightarrow> json option) \<Rightarrow> string \<Rightarrow> properties \<Rightarrow> session \<Rightarrow> (py_error + unit) \<times> session"
where
  "handle_response loads pl props s =
     (case props ''correlation_data'' of
        None \<Rightarrow> (Inl KeyError, s)
      | Some [] \<Rightarrow> (Inl IndexError, s)
      | Some (b # _) \<Rightarrow>
          (let rid = from_bytes b in
           case inflight s rid of
             None \<Rightarrow> (Inl KeyError, s)
           | Some fut \<Rightarrow>
               (case loads pl of
                  None \<Rightarrow> (Inl JSONDecodeError, s)
                | Some v \<Rightarrow>
                    (case set_result fut v s of
                       Inl e \<Rightarrow> (Inl e, s)
                     | Inr s1 \<Rightarrow> (Inr (), s1\<lparr>inflight := (inflight s1)(rid := None)\<rparr>)))))"

section \<open>Issuing a command\<close>

text \<open>
  \<open>Miniconf.command\<close> up to its \<open>await fut\<close>: the result is the exception raised
  (\<open>Inl\<close>) or the handle of the future the caller then awaits, and the state left behind.
  \<open>dumps\<close> is \<open>json.dumps\<close>, \<open>None\<close> where it raises \<open>TypeError\<close>. The statements run
  in the order of the source: the counter is advanced before the assertion, the future is
  registered before the publish. The logging call has no effect on the state.
\<close>

definition command ::
  "('a \<Rightarrow> string option) \<Rightarrow> string \<Rightarrow> 'a \<Rightarrow> bool \<Rightarrow> session \<Rightarrow> (py_error + nat) \<times> session"
where
  "command dumps path val keep s =
     (let setting_topic = prefix s @ ''/settings/'' @ path;
          reply_topic = prefix s @ ''/response/'' @ uuid s;
          rid = request_id s;
          s1 = s\<lparr>request_id := request_id s + 1\<rparr>
      in if rid \<in> dom (inflight s1) then (Inl AssertionError, s1)
         else
           (case to_bytes rid 4 of
              Inl e \<Rightarrow> (Inl e, s1)
            | Inr cd \<Rightarrow>
                (case dumps val of
                   None \<Rightarrow> (Inl TypeError, s1)
                 | Some js \<Rightarrow>
                     (let (fut, s2) = create_future s1;
                          s3 = s2\<lparr>inflight := (inflight s2)(rid \<mapsto> fut)\<rparr>;
                          s4 = publish \<lparr>topic = setting_topic, payload = js, qos = 0,
                                 retain = keep, response_topic = reply_topic,
                                 correlation_data = cd\<rparr> s3
                      in (Inr fut, s4)))))"

text \<open>
  The states of the session during a call of \<open>command\<close>, one after each statement that
  changes the session, in the order of the source: the increment of the counter,
  \<open>create_future\<close>, the registration \<open>self.inflight[request_id] = fut\<close>, and
  \<open>self.client.publish\<close>. A call that raises ends the list with the state it leaves;
  the last state is the one \<open>command\<close> leaves.
\<close>

definition command_states ::
  "('a \<Rightarrow> string option) \<Rightarrow> string \<Rightarrow> 'a \<Rightarrow> bool \<Rightarrow> session \<Rightarrow> session list"
where
  "command_states dumps path val keep s =
     (let setting_topic = prefix s @ ''/settings/'' @ path;
          reply_topic = prefix s @ ''/response/'' @ uuid s;
          rid = request_id s;
          s1 = s\<lparr>request_id := request_id s + 1\<rparr>
      in if rid \<in> dom (inflight s1) then [s1]
         else
           (case to_bytes rid 4 of
              Inl e \<Rightarrow> [s1]
            | Inr cd \<Rightarrow>
                (case dumps val of
                   None \<Rightarrow> [s1]
                 | Some js \<Rightarrow>
                     (let (fut, s2) = create_future s1;
                          s3 = s2\<lparr>inflight := (inflight s2)(rid \<mapsto> fut)\<rparr>;
                          s4 = publish \<lparr>topic = setting_topic, payload = js, qos = 0,
                                 retain = keep, response_topic = reply_topic,
                                 correlation_data = cd\<rparr> s3
                      in [s1, s2, s3, s4]))))"


section \<open>Runs of a session\<close>

text \<open>
  What happens to a session: a task calls \<open>command\<close>, or the client calls the handler
  with an inbound message. An exception ends that call only; the session goes on from
  the state the call left.
\<close>

datatype 'a event = Command string 'a bool | Response string properties

fun run ::
  "(string \<Rightarrow> json option) \<Rightarrow> ('a \<Rightarrow> string option) \<Rightarrow> 'a event list \<Rightarrow> session \<Rightarrow> session"
where
  "run loads dumps [] s = s"
| "run loads dumps (Command path val keep # evs) s =
     run loads dumps evs (snd (command dumps path val keep s))"
| "run loads dumps (Response pl props # evs) s =
     run loads dumps evs (snd (handle_response loads pl props s))"

text \<open>Several commands issued one after the other; the futures of the callers, in call order.\<close>

fun issue ::
  "('a \<Rightarrow> string option) \<Rightarrow> (string \<times> 'a \<times> bool) list \<Rightarrow> session \<Rightarrow> (py_error + nat list) \<times> session"
where
  "issue dumps [] s = (Inr [], s)"
| "issue dumps ((path, val, keep) # cs) s =
     (case command dumps path val keep s of
        (Inl e, s1) \<Rightarrow> (Inl e, s1)
      | (Inr fut, s1) \<Rightarrow>
          (case issue dumps cs s1 of
             (Inl e, s2) \<Rightarrow> (Inl e, s2)
           | (Inr futs, s2) \<Rightarrow> (Inr (fut # futs), s2)))"

text \<open>
  The response to request \<open>rid\<close> as the broker delivers it: the payload, and the four
  octets of the request's correlation data echoed in the properties.
\<close>

definition response_to :: "int \<Rightarrow> string \<Rightarrow> string \<times> properties" where
  "response_to rid pl = (pl, [''correlation_data'' \<mapsto> [be_bytes 4 rid]])"

text \<open>
  The states a session is in between calls: identifiers in flight were allocated and
  encoded, their futures were created and are pending, and no future is registered twice.
\<close>

definition session_inv :: "session \<Rightarrow> bool" where
  "session_inv s \<longleftrightarrow>
     0 \<le> request_id s \<and>
     (\<forall>rid fut. inflight s rid = Some fut \<longrightarrow>
        0 \<le> rid \<and> rid < request_id s \<and> rid < 2 ^ 32 \<and> fut < next_future s \<and>
        futures s fut = Pending) \<and>
     (\<forall>a b fut. inflight s a = Some fut \<longrightarrow> inflight s b = Some fut \<longrightarrow> a = b)"

section \<open>The command line\<close>

text \<open>
  Inbound messages are pairs of a payload and its properties. While a caller waits, the
  client calls the handler once for each message that arrives; what the handler raises
  goes to the client, not to the caller, and the session goes on from the state left.
\<close>

fun deliver ::
  "(string \<Rightarrow> json option) \<Rightarrow> (string \<times> properties) list \<Rightarrow> session \<Rightarrow> session"
where
  "deliver loads [] s = s"
| "deliver loads ((pl, props) # ms) s = deliver loads ms (snd (handle_response loads pl props s))"










section \<open>Notions used in the statements\<close>

text \<open>The calls of \<open>command\<close> among the events of a run, in call order.\<close>

fun commands :: "'a event list \<Rightarrow> (string \<times> 'a \<times> bool) list" where
  "commands [] = []"
| "commands (Command path val keep # evs) = (path, val, keep) # commands evs"
| "commands (Response pl props # evs) = commands evs"




section \<open>Basic facts\<close>

lemma from_bytes_snoc: "from_bytes (b @ [x]) = from_bytes b * 256 + uint x"
  by (simp add: from_bytes_def)

lemma uint_octet: "uint (word_of_int n :: 8 word) = n mod 256"
  by (simp add: uint_word_of_int)

lemma from_bytes_be_bytes: "0 \<le> n \<Longrightarrow> n < 256 ^ len \<Longrightarrow> from_bytes (be_bytes len n) = n"
proof (induction len arbitrary: n)
  case 0
  then show ?case by (simp add: from_bytes_def)
next
  case (Suc len)
  have "n div 256 < 256 ^ len" using Suc.prems by (simp add: div_less_iff_less_mult)
  moreover have "0 \<le> n div 256" using Suc.prems by simp
  ultimately have "from_bytes (be_bytes len (n div 256)) = n div 256" by (rule Suc.IH[rotated])
  then show ?case by (simp add: from_bytes_snoc uint_octet)
qed

lemma from_bytes_be4: "0 \<le> n \<Longrightarrow> n < 2 ^ 32 \<Longrightarrow> from_bytes (be_bytes 4 n) = n"
  using from_bytes_be_bytes [of n 4] by simp

lemma to_bytes_4: "to_bytes n 4 = (if 0 \<le> n \<and> n < 2 ^ 32 then Inr (be_bytes 4 n) else Inl OverflowError)"
  by (auto simp: to_bytes_def)

lemma hr_absent:
  "props ''correlation_data'' = None \<Longrightarrow> handle_response loads pl props s = (Inl KeyError, s)"
  by (simp add: handle_response_def)

lemma hr_unknown:
  "props ''correlation_data'' = Some (b # bs) \<Longrightarrow> inflight s (from_bytes b) = None \<Longrightarrow>
   handle_response loads pl props s = (Inl KeyError, s)"
  by (simp add: handle_response_def)

lemma hr_undecodable:
  "props ''correlation_data'' = Some (b # bs) \<Longrightarrow> inflight s (from_bytes b) = Some fut \<Longrightarrow>
   loads pl = None \<Longrightarrow> handle_response loads pl props s = (Inl JSONDecodeError, s)"
  by (simp add: handle_response_def)

lemma hr_resolve:
  "props ''correlation_data'' = Some (b # bs) \<Longrightarrow> inflight s (from_bytes b) = Some fut \<Longrightarrow>
   loads pl = Some v \<Longrightarrow> futures s fut = Pending \<Longrightarrow>
   handle_response loads pl props s =
     (Inr (), s\<lparr>futures := (futures s)(fut := Done v),
               inflight := (inflight s)(from_bytes b := None)\<rparr>)"
  by (simp add: handle_response_def set_result_def)

lemma hr_raises_unchanged:
  "fst (handle_response loads pl props s) = Inl e \<Longrightarrow> snd (handle_response loads pl props s) = s"
  by (auto simp: handle_response_def Let_def split: option.splits list.splits sum.splits)

lemma command_raises:
  "fst (command dumps path val keep s) = Inl e \<Longrightarrow>
   snd (command dumps path val keep s) = s\<lparr>request_id := request_id s + 1\<rparr>"
  by (auto simp: command_def Let_def create_future_def split: option.splits sum.splits if_splits)

lemma command_returns:
  "request_id s \<notin> dom (inflight s) \<Longrightarrow> 0 \<le> request_id s \<Longrightarrow> request_id s < 2 ^ 32 \<Longrightarrow>
   dumps val = Some text \<Longrightarrow>
   command dumps path val keep s =
     (Inr (next_future s),
      s\<lparr>request_id := request_id s + 1,
        futures := (futures s)(next_future s := Pending),
        next_future := Suc (next_future s),
        inflight := (inflight s)(request_id s \<mapsto> next_future s),
        published := published s @
          [\<lparr>topic = prefix s @ ''/settings/'' @ path, payload = text, qos = 0, retain = keep,
            response_topic = prefix s @ ''/response/'' @ uuid s,
            correlation_data = be_bytes 4 (request_id s)\<rparr>]\<rparr>)"
  by (simp add: command_def Let_def create_future_def publish_def to_bytes_4)

lemma command_cases:
  "command dumps path val keep s = (r, s') \<Longrightarrow>
   (\<exists>e. r = Inl e \<and> s' = s\<lparr>request_id := request_id s + 1\<rparr>) \<or>
   (request_id s \<notin> dom (inflight s) \<and> 0 \<le> request_id s \<and> request_id s < 2 ^ 32 \<and>
    (\<exists>text. dumps val = Some text))"
  by (auto simp: command_def Let_def to_bytes_4 split: option.splits sum.splits if_splits)

lemma session_inv_init: "session_inv (init u p)"
  by (simp add: session_inv_def init_def)

lemma session_invD:
  "session_inv s \<Longrightarrow> inflight s rid = Some fut \<Longrightarrow>
   0 \<le> rid \<and> rid < request_id s \<and> rid < 2 ^ 32 \<and> fut < next_future s \<and> futures s fut = Pending"
  unfolding session_inv_def by blast

lemma session_inv_inj:
  "session_inv s \<Longrightarrow> inflight s a = Some fut \<Longrightarrow> inflight s b = Some fut \<Longrightarrow> a = b"
  unfolding session_inv_def by blast

lemma session_invI:
  assumes "0 \<le> request_id s"
    and "\<And>rid fut. inflight s rid = Some fut \<Longrightarrow>
          0 \<le> rid \<and> rid < request_id s \<and> rid < 2 ^ 32 \<and> fut < next_future s \<and> futures s fut = Pending"
    and "\<And>a b fut. inflight s a = Some fut \<Longrightarrow> inflight s b = Some fut \<Longrightarrow> a = b"
  shows "session_inv s"
  unfolding session_inv_def using assms by blast

lemma session_inv_command:
  assumes "session_inv s"
  shows "session_inv (snd (command dumps path val keep s))"
proof (cases "fst (command dumps path val keep s)")
  case (Inl e)
  show ?thesis
    unfolding command_raises [OF Inl]
  proof (intro session_invI, goal_cases)
    case 1
    then show ?case using assms by (simp add: session_inv_def)
  next
    case (2 rid f)
    then show ?case using session_invD [OF assms, of rid f] by simp
  next
    case (3 a b f)
    then show ?case using session_inv_inj [OF assms, of a f b] by simp
  qed
next
  case (Inr fut)
  obtain r s' where c: "command dumps path val keep s = (r, s')" by fastforce
  with Inr command_cases [OF c] obtain js where
    h: "request_id s \<notin> dom (inflight s)" "0 \<le> request_id s" "request_id s < 2 ^ 32"
       "dumps val = Some js" by auto
  show ?thesis
    unfolding command_returns [of s dumps val js path keep, OF h]
  proof (intro session_invI, goal_cases)
    case 1
    then show ?case using h(2) by simp
  next
    case (2 rid f)
    then show ?case using session_invD [OF assms, of rid f] h
      by (auto split: if_splits)
  next
    case (3 a b f)
    then show ?case
      using session_invD [OF assms, of a f] session_invD [OF assms, of b f]
        session_inv_inj [OF assms, of a f b]
      by (auto split: if_splits)
  qed
qed

lemma hr_returnsD:
  assumes "fst (handle_response loads pl props s) = Inr u"
  shows "\<exists>b bs fut v. props ''correlation_data'' = Some (b # bs) \<and>
           inflight s (from_bytes b) = Some fut \<and> loads pl = Some v \<and> futures s fut = Pending"
proof -
  obtain vs where 1: "props ''correlation_data'' = Some vs"
    using assms by (cases "props ''correlation_data''") (simp_all add: handle_response_def)
  obtain b bs where 2: "vs = b # bs"
    using assms 1 by (cases vs) (simp_all add: handle_response_def)
  obtain fut where 3: "inflight s (from_bytes b) = Some fut"
    using assms 1 2 by (cases "inflight s (from_bytes b)") (simp_all add: handle_response_def)
  obtain v where 4: "loads pl = Some v"
    using assms 1 2 3 by (cases "loads pl") (simp_all add: handle_response_def)
  have 5: "futures s fut = Pending"
    using assms 1 2 3 4
    by (cases "futures s fut") (simp_all add: handle_response_def set_result_def)
  from 1 2 3 4 5 show ?thesis by blast
qed

lemma session_inv_handle_response:
  assumes "session_inv s"
  shows "session_inv (snd (handle_response loads pl props s))"
proof (cases "fst (handle_response loads pl props s)")
  case (Inl e)
  from hr_raises_unchanged [OF this] assms show ?thesis by simp
next
  case (Inr u)
  from hr_returnsD [OF this] obtain b bs fut v where
    h: "props ''correlation_data'' = Some (b # bs)" "inflight s (from_bytes b) = Some fut"
       "loads pl = Some v" "futures s fut = Pending"
    by blast
  have eq: "handle_response loads pl props s =
     (Inr (), s\<lparr>futures := (futures s)(fut := Done v),
               inflight := (inflight s)(from_bytes b := None)\<rparr>)"
    using h by (rule hr_resolve)
  show ?thesis
    unfolding eq
  proof (intro session_invI, goal_cases)
    case 1
    then show ?case using assms by (simp add: session_inv_def)
  next
    case (2 rid f)
    then have ne: "rid \<noteq> from_bytes b" and reg: "inflight s rid = Some f"
      by (simp_all split: if_splits)
    have "f \<noteq> fut"
      using session_inv_inj [OF assms reg, of "from_bytes b"] h(2) ne by blast
    with session_invD [OF assms reg] show ?case by simp
  next
    case (3 a c f)
    then have "inflight s a = Some f" and "inflight s c = Some f"
      by (simp_all split: if_splits)
    then show ?case by (rule session_inv_inj [OF assms])
  qed
qed

lemma session_inv_run: "session_inv s \<Longrightarrow> session_inv (run loads dumps evs s)"
proof (induction evs arbitrary: s)
  case Nil
  then show ?case by simp
next
  case (Cons ev evs)
  then show ?case
    by (cases ev) (simp_all add: session_inv_command session_inv_handle_response)
qed

lemma first_command:
  "command Some ''afe/0'' ''G2'' True (init ''u'' ''dt'') =
    (Inr 0, (init ''u'' ''dt'')\<lparr>request_id := 1, futures := (futures (init ''u'' ''dt''))(0 := Pending),
        next_future := Suc 0,
        inflight := [0 \<mapsto> 0],
        published := [\<lparr>topic = ''dt/settings/afe/0'', payload = ''G2'', qos = 0, retain = True,
            response_topic = ''dt/response/u'',
            correlation_data = [0,0,0,0]\<rparr>]\<rparr>)"
  by (simp add: command_def Let_def create_future_def publish_def to_bytes_def init_def eval_nat_numeral)

lemma command_request_id:
  "request_id (snd (command dumps path val keep s)) = request_id s + 1"
  by (simp add: command_def Let_def create_future_def publish_def split: option.splits sum.splits)

lemma command_cases_Inr:
  assumes "fst (command dumps path val keep s) = Inr fut"
  shows "request_id s \<notin> dom (inflight s) \<and> 0 \<le> request_id s \<and> request_id s < 2 ^ 32 \<and>
         (\<exists>js. dumps val = Some js)"
proof -
  obtain r s' where c: "command dumps path val keep s = (r, s')" by fastforce
  with assms command_cases [OF c] show ?thesis by auto
qed

lemma be_bytes_4:
  "be_bytes 4 n = [word_of_int (n div 16777216), word_of_int (n div 65536),
                   word_of_int (n div 256), word_of_int n]"
proof -
  have "n div 256 div 256 = n div 65536" "n div 256 div 256 div 256 = n div 16777216"
    by (simp_all add: zdiv_zmult2_eq [symmetric])
  then show ?thesis by (simp add: eval_nat_numeral)
qed

lemma hr_frame:
  "request_id (snd (handle_response loads pl props s)) = request_id s \<and>
   published (snd (handle_response loads pl props s)) = published s \<and>
   next_future (snd (handle_response loads pl props s)) = next_future s"
proof (cases "fst (handle_response loads pl props s)")
  case (Inl e)
  from hr_raises_unchanged [OF this] show ?thesis by simp
next
  case (Inr u)
  from hr_returnsD [OF this] obtain b bs fut v where
    h: "props ''correlation_data'' = Some (b # bs)" "inflight s (from_bytes b) = Some fut"
       "loads pl = Some v" "futures s fut = Pending"
    by blast
  have "handle_response loads pl props s =
     (Inr (), s\<lparr>futures := (futures s)(fut := Done v),
               inflight := (inflight s)(from_bytes b := None)\<rparr>)"
    using h by (rule hr_resolve)
  then show ?thesis by simp
qed

lemma session_inv_fresh: "session_inv s \<Longrightarrow> request_id s \<notin> dom (inflight s)"
  using session_invD [of s "request_id s"] by fastforce

lemma session_inv_nonneg: "session_inv s \<Longrightarrow> 0 \<le> request_id s"
  by (simp add: session_inv_def)

lemma run_published_ids:
  assumes "session_inv s"
    and "\<forall>(path, val, keep) \<in> set (commands evs). dumps val \<noteq> None"
    and "request_id s + int (length (commands evs)) \<le> 2 ^ 32"
  shows "map (from_bytes \<circ> correlation_data) (published (run loads dumps evs s)) =
         map (from_bytes \<circ> correlation_data) (published s) @
         map (\<lambda>k. request_id s + int k) [0..<length (commands evs)]"
  using assms
proof (induction evs arbitrary: s)
  case Nil
  then show ?case by simp
next
  case (Cons ev evs)
  show ?case
  proof (cases ev)
    case (Command path val keep)
    from Cons.prems(2) Command obtain js where js: "dumps val = Some js" by auto
    have lt: "request_id s < 2 ^ 32" using Cons.prems(3) Command by simp
    note eq = command_returns [of s dumps val js path keep,
        OF session_inv_fresh [OF Cons.prems(1)] session_inv_nonneg [OF Cons.prems(1)] lt js]
    let ?s' = "snd (command dumps path val keep s)"
    have inv': "session_inv ?s'" using Cons.prems(1) by (rule session_inv_command)
    have rid': "request_id ?s' = request_id s + 1" by (simp add: eq)
    have pub': "map (from_bytes \<circ> correlation_data) (published ?s') =
                map (from_bytes \<circ> correlation_data) (published s) @ [request_id s]"
      using session_inv_nonneg [OF Cons.prems(1)] lt by (simp add: eq from_bytes_be4)
    have ih: "map (from_bytes \<circ> correlation_data) (published (run loads dumps evs ?s')) =
         map (from_bytes \<circ> correlation_data) (published ?s') @
         map (\<lambda>k. request_id ?s' + int k) [0..<length (commands evs)]"
      using Cons.prems(2,3) Command by (intro Cons.IH [OF inv']) (auto simp: rid')
    have step: "map (\<lambda>k. request_id s + int k) [0..<Suc (length (commands evs))] =
                request_id s # map (\<lambda>k. request_id ?s' + int k) [0..<length (commands evs)]"
      by (simp add: map_upt_Suc rid' add.assoc del: upt_Suc)
    have a: "run loads dumps (ev # evs) s = run loads dumps evs ?s'" using Command by simp
    have b: "length (commands (ev # evs)) = Suc (length (commands evs))" using Command by simp
    show ?thesis unfolding a b ih pub' step by simp
  next
    case (Response pl props)
    let ?s' = "snd (handle_response loads pl props s)"
    have inv': "session_inv ?s'" using Cons.prems(1) by (rule session_inv_handle_response)
    have ih: "map (from_bytes \<circ> correlation_data) (published (run loads dumps evs ?s')) =
         map (from_bytes \<circ> correlation_data) (published ?s') @
         map (\<lambda>k. request_id ?s' + int k) [0..<length (commands evs)]"
      using Cons.prems(2,3) Response by (intro Cons.IH [OF inv']) (auto simp: hr_frame)
    have a: "run loads dumps (ev # evs) s = run loads dumps evs ?s'" using Response by simp
    have b: "length (commands (ev # evs)) = length (commands evs)" using Response by simp
    have c: "published ?s' = published s" "request_id ?s' = request_id s"
      by (simp_all add: hr_frame)
    show ?thesis unfolding a b ih c by (rule refl)
  qed
qed

lemma hr_response_to:
  assumes "session_inv s" "inflight s rid = Some fut" "loads pl = Some v"
  shows "handle_response loads pl (snd (response_to rid pl)) s =
     (Inr (), s\<lparr>futures := (futures s)(fut := Done v),
               inflight := (inflight s)(rid := None)\<rparr>)"
proof -
  from session_invD [OF assms(1,2)]
  have r: "0 \<le> rid" "rid < 2 ^ 32" and p: "futures s fut = Pending" by simp_all
  have fb: "from_bytes (be_bytes 4 rid) = rid" using r by (rule from_bytes_be4)
  have "handle_response loads pl [''correlation_data'' \<mapsto> [be_bytes 4 rid]] s =
     (Inr (), s\<lparr>futures := (futures s)(fut := Done v),
               inflight := (inflight s)(from_bytes (be_bytes 4 rid) := None)\<rparr>)"
    by (rule hr_resolve [where bs = "[]"]) (simp_all add: fb assms p)
  then show ?thesis by (simp add: response_to_def fb)
qed

lemma deliver_resolves:
  assumes "session_inv s" "distinct (map fst rs)"
    and "\<forall>(rid, pl) \<in> set rs. rid \<in> dom (inflight s) \<and> loads pl \<noteq> None"
  shows "session_inv (deliver loads (map (case_prod response_to) rs) s) \<and>
         inflight (deliver loads (map (case_prod response_to) rs) s) =
           (\<lambda>rid. if rid \<in> fst ` set rs then None else inflight s rid) \<and>
         (\<forall>(rid, pl) \<in> set rs.
            futures (deliver loads (map (case_prod response_to) rs) s) (the (inflight s rid)) =
              Done (the (loads pl))) \<and>
         (\<forall>f. (\<forall>(rid, pl) \<in> set rs. inflight s rid \<noteq> Some f) \<longrightarrow>
            futures (deliver loads (map (case_prod response_to) rs) s) f = futures s f)"
  using assms
proof (induction rs arbitrary: s)
  case Nil
  then show ?case by simp
next
  case (Cons r rs)
  obtain rid pl where r: "r = (rid, pl)" by (cases r)
  from Cons.prems(3) r obtain fut v where
    reg: "inflight s rid = Some fut" and dec: "loads pl = Some v" by auto
  define s1 where "s1 = s\<lparr>futures := (futures s)(fut := Done v),
               inflight := (inflight s)(rid := None)\<rparr>"
  have hr: "handle_response loads pl (snd (response_to rid pl)) s = (Inr (), s1)"
    unfolding s1_def using Cons.prems(1) reg dec by (rule hr_response_to)
  have fst_rt: "fst (response_to rid pl) = pl" by (simp add: response_to_def)
  have step: "deliver loads (map (case_prod response_to) (r # rs)) s =
              deliver loads (map (case_prod response_to) rs) s1"
    using hr fst_rt by (cases "response_to rid pl") (simp add: r)
  have inv1: "session_inv s1"
    using session_inv_handle_response [OF Cons.prems(1), of loads pl "snd (response_to rid pl)"]
    by (simp add: hr)
  have notin: "rid \<notin> fst ` set rs" using Cons.prems(2) r by auto
  have infl1: "\<And>x. x \<noteq> rid \<Longrightarrow> inflight s1 x = inflight s x" by (simp add: s1_def)
  have pre: "\<forall>(rid', pl') \<in> set rs. rid' \<in> dom (inflight s1) \<and> loads pl' \<noteq> None"
    using Cons.prems(3) notin by (auto simp: s1_def rev_image_eqI)
  have dist: "distinct (map fst rs)" using Cons.prems(2) by simp
  note ih = Cons.IH [OF inv1 dist pre]
  let ?s' = "deliver loads (map (case_prod response_to) rs) s1"
  have others: "\<And>x p. (x, p) \<in> set rs \<Longrightarrow> x \<noteq> rid"
    using notin by (auto simp: rev_image_eqI)
  have fut_other: "\<And>x p. (x, p) \<in> set rs \<Longrightarrow> inflight s x \<noteq> Some fut"
    using session_inv_inj [OF Cons.prems(1) _ reg] others by blast
  have A: "session_inv ?s'" using ih by blast
  have B: "inflight ?s' = (\<lambda>x. if x \<in> fst ` set (r # rs) then None else inflight s x)"
  proof
    fix x
    have "inflight ?s' x = (if x \<in> fst ` set rs then None else inflight s1 x)"
      using ih by simp
    then show "inflight ?s' x = (if x \<in> fst ` set (r # rs) then None else inflight s x)"
      by (simp add: r s1_def)
  qed
  have C: "\<forall>(x, p) \<in> set (r # rs). futures ?s' (the (inflight s x)) = Done (the (loads p))"
  proof (clarify)
    fix x p assume "(x, p) \<in> set (r # rs)"
    then consider "x = rid" "p = pl" | "(x, p) \<in> set rs" using r by auto
    then show "futures ?s' (the (inflight s x)) = Done (the (loads p))"
    proof cases
      case 1
      have "\<forall>(rid', pl') \<in> set rs. inflight s1 rid' \<noteq> Some fut"
        using fut_other others by (auto simp: infl1)
      with ih have "futures ?s' fut = futures s1 fut" by blast
      then show ?thesis using 1 reg dec by (simp add: s1_def)
    next
      case 2
      with ih have "futures ?s' (the (inflight s1 x)) = Done (the (loads p))" by blast
      then show ?thesis using others [OF 2] by (simp add: infl1)
    qed
  qed
  have D: "\<forall>f. (\<forall>(x, p) \<in> set (r # rs). inflight s x \<noteq> Some f) \<longrightarrow> futures ?s' f = futures s f"
  proof (intro allI impI)
    fix f assume h: "\<forall>(x, p) \<in> set (r # rs). inflight s x \<noteq> Some f"
    then have "f \<noteq> fut" using r reg by auto
    have "\<forall>(x, p) \<in> set rs. inflight s1 x \<noteq> Some f"
      using h others by (auto simp: infl1)
    with ih have "futures ?s' f = futures s1 f" by blast
    then show "futures ?s' f = futures s f" using \<open>f \<noteq> fut\<close> by (simp add: s1_def)
  qed
  show ?case unfolding step using A B C D by blast
qed

lemma issue_registers:
  assumes "session_inv s" "issue dumps cmds s = (Inr futs, s1)"
  shows "session_inv s1 \<and> length futs = length cmds \<and>
         request_id s1 = request_id s + int (length cmds) \<and>
         (\<forall>k < length cmds. inflight s1 (request_id s + int k) = Some (futs ! k)) \<and>
         (\<forall>rid f. inflight s rid = Some f \<longrightarrow> inflight s1 rid = Some f)"
  using assms
proof (induction cmds arbitrary: s futs)
  case Nil
  then show ?case by simp
next
  case (Cons c cs)
  obtain path val keep where c: "c = (path, val, keep)" by (cases c)
  obtain r s' where cmd: "command dumps path val keep s = (r, s')" by fastforce
  from Cons.prems(2) c cmd obtain fut where r: "r = Inr fut"
    by (cases r) auto
  from Cons.prems(2) c cmd r obtain futs' where
    rest: "issue dumps cs s' = (Inr futs', s1)" and futs: "futs = fut # futs'"
    by (auto split: prod.splits sum.splits)
  from cmd r have ok: "fst (command dumps path val keep s) = Inr fut" by simp
  from command_cases_Inr [OF ok] obtain js where
    h: "request_id s \<notin> dom (inflight s)" "0 \<le> request_id s" "request_id s < 2 ^ 32"
       "dumps val = Some js" by auto
  note eq = command_returns [of s dumps val js path keep, OF h]
  have s': "s' = snd (command dumps path val keep s)" using cmd by simp
  have inv': "session_inv s'" unfolding s' using Cons.prems(1) by (rule session_inv_command)
  have rid': "request_id s' = request_id s + 1" by (simp add: s' eq)
  have reg': "inflight s' (request_id s) = Some fut" using ok by (simp add: s' eq)
  have keep': "\<And>rid f. inflight s rid = Some f \<Longrightarrow> inflight s' rid = Some f"
    using h(1) by (auto simp: s' eq)
  note ih = Cons.IH [OF inv' rest]
  have A: "session_inv s1" "length futs = length (c # cs)"
    "request_id s1 = request_id s + int (length (c # cs))"
    using ih by (simp_all add: futs rid')
  have B: "\<forall>k < length (c # cs). inflight s1 (request_id s + int k) = Some (futs ! k)"
  proof (intro allI impI)
    fix k assume k: "k < length (c # cs)"
    show "inflight s1 (request_id s + int k) = Some (futs ! k)"
    proof (cases k)
      case 0
      then show ?thesis using ih reg' by (simp add: futs)
    next
      case (Suc j)
      with k have "j < length cs" by simp
      with ih have "inflight s1 (request_id s' + int j) = Some (futs' ! j)" by blast
      then show ?thesis by (simp add: Suc futs rid' add.assoc)
    qed
  qed
  have C: "\<forall>rid f. inflight s rid = Some f \<longrightarrow> inflight s1 rid = Some f"
    using ih keep' by blast
  show ?case using A B C by blast
qed


lemma two_commands:
  "fst (issue Some [(''afe/0'', ''G2'', True), (''afe/1'', ''G10'', True)] (init ''u'' ''dt''))
     = Inr [0, 1]"
  by (simp add: command_def Let_def create_future_def publish_def to_bytes_4 init_def)




lemma command_states_last:
  "last (command_states dumps path val keep s) = snd (command dumps path val keep s)"
  by (simp add: command_states_def command_def Let_def create_future_def
      split: option.splits sum.splits)

lemma command_states_returns:
  "request_id s \<notin> dom (inflight s) \<Longrightarrow> 0 \<le> request_id s \<Longrightarrow> request_id s < 2 ^ 32 \<Longrightarrow>
   dumps val = Some js \<Longrightarrow>
   command_states dumps path val keep s =
     [s\<lparr>request_id := request_id s + 1\<rparr>,
      s\<lparr>request_id := request_id s + 1,
        futures := (futures s)(next_future s := Pending),
        next_future := Suc (next_future s)\<rparr>,
      s\<lparr>request_id := request_id s + 1,
        futures := (futures s)(next_future s := Pending),
        next_future := Suc (next_future s),
        inflight := (inflight s)(request_id s \<mapsto> next_future s)\<rparr>,
      publish \<lparr>topic = prefix s @ ''/settings/'' @ path, payload = js, qos = 0, retain = keep,
            response_topic = prefix s @ ''/response/'' @ uuid s,
            correlation_data = be_bytes 4 (request_id s)\<rparr>
        (s\<lparr>request_id := request_id s + 1,
        futures := (futures s)(next_future s := Pending),
        next_future := Suc (next_future s),
        inflight := (inflight s)(request_id s \<mapsto> next_future s)\<rparr>)]"
  by (simp add: command_states_def Let_def create_future_def to_bytes_4)

section \<open>The claims\<close>

subsection \<open>Responses with an unknown identifier\<close>

text \<open>
  Claim C2, as the code has it: when the correlation identifier of an inbound response is
  not a key of the registry, the handler raises \<open>KeyError\<close> from the lookup
  \<open>self.inflight[request_id]\<close>; nothing is logged or caught. The session is left as
  it was, so every registry entry and every future stays unchanged.
\<close>

theorem unknown_response_raises:
  "props ''correlation_data'' = Some (b # bs) \<Longrightarrow> from_bytes b \<notin> dom (inflight s) \<Longrightarrow>
   handle_response loads pl props s = (Inl KeyError, s)"
  by (rule hr_unknown) auto

theorem unknown_response_raises_witness:
  "handle_response (map_of [(''0'', JInt 0)]) ''0'' [''correlation_data'' \<mapsto> [[0, 0, 0, 7]]]
      (snd (command Some ''afe/0'' ''G2'' True (init ''u'' ''dt'')))
   = (Inl KeyError, snd (command Some ''afe/0'' ''G2'' True (init ''u'' ''dt'')))"
  using unknown_response_raises [of "[''correlation_data'' \<mapsto> [[0, 0, 0, 7]]]" "[0, 0, 0, 7]" "[]"
      "snd (command Some ''afe/0'' ''G2'' True (init ''u'' ''dt''))" "map_of [(''0'', JInt 0)]" "''0''"]
  unfolding first_command by (simp add: from_bytes_def init_def)

theorem unknown_response_counterexample:
  "fst (handle_response (map_of [(''0'', JInt 0)]) ''0'' [''correlation_data'' \<mapsto> [[0, 0, 0, 7]]]
      (snd (command Some ''afe/0'' ''G2'' True (init ''u'' ''dt'')))) = Inl KeyError"
  unfolding first_command by (simp add: handle_response_def from_bytes_def init_def)

subsection \<open>Identifiers\<close>

text \<open>
  Claim C3, as the code has it: the counter of a new session is 0, and every call of
  \<open>command\<close> takes the counter's value as its identifier and adds one to the counter,
  without any wrap: the counter is an unbounded integer. A call that returns a future has
  registered it under an identifier from 0 to \<open>2^32 - 1\<close> and has published that
  identifier's four octets; a call whose identifier is \<open>2^32\<close> or more raises
  \<open>OverflowError\<close> at \<open>to_bytes\<close>.
\<close>

theorem identifiers_never_wrap:
  "request_id (init u p) = 0 \<and>
   request_id (snd (command dumps path val keep s)) = request_id s + 1 \<and>
   (fst (command dumps path val keep s) = Inr fut \<longrightarrow>
      inflight (snd (command dumps path val keep s)) (request_id s) = Some fut \<and>
      correlation_data (last (published (snd (command dumps path val keep s))))
        = be_bytes 4 (request_id s) \<and>
      0 \<le> request_id s \<and> request_id s < 2 ^ 32) \<and>
   (request_id s \<notin> dom (inflight s) \<longrightarrow> 2 ^ 32 \<le> request_id s \<longrightarrow>
      fst (command dumps path val keep s) = Inl OverflowError)"
proof (intro conjI impI)
  show "request_id (init u p) = 0" by (simp add: init_def)
  show "request_id (snd (command dumps path val keep s)) = request_id s + 1"
    by (rule command_request_id)
next
  assume ok: "fst (command dumps path val keep s) = Inr fut"
  from command_cases_Inr [OF ok] obtain js where
    h: "request_id s \<notin> dom (inflight s)" "0 \<le> request_id s" "request_id s < 2 ^ 32"
       "dumps val = Some js" by auto
  note eq = command_returns [of s dumps val js path keep, OF h]
  from ok eq have fut: "fut = next_future s" by simp
  show "inflight (snd (command dumps path val keep s)) (request_id s) = Some fut"
    by (simp add: eq fut)
  show "correlation_data (last (published (snd (command dumps path val keep s))))
        = be_bytes 4 (request_id s)"
    by (simp add: eq)
  show "0 \<le> request_id s" "request_id s < 2 ^ 32" by (rule h)+
next
  assume "request_id s \<notin> dom (inflight s)" "2 ^ 32 \<le> request_id s"
  then show "fst (command dumps path val keep s) = Inl OverflowError"
    by (auto simp: command_def Let_def to_bytes_4)
qed

theorem identifiers_never_wrap_witness:
  "request_id (snd (command Some ''afe/0'' ''G2'' True ((init ''u'' ''dt'')\<lparr>request_id := 2 ^ 32 - 1\<rparr>)))
     = 2 ^ 32 \<and>
   fst (command Some ''afe/0'' ''G2'' True ((init ''u'' ''dt'')\<lparr>request_id := 2 ^ 32\<rparr>))
     = Inl OverflowError \<and>
   inflight (snd (command Some ''afe/0'' ''G2'' True (init ''u'' ''dt''))) 0 = Some 0"
  using identifiers_never_wrap [of "''u''" "''dt''" Some "''afe/0''" "''G2''" True
      "(init ''u'' ''dt'')\<lparr>request_id := 2 ^ 32 - 1\<rparr>"]
    identifiers_never_wrap [of "''u''" "''dt''" Some "''afe/0''" "''G2''" True
      "(init ''u'' ''dt'')\<lparr>request_id := 2 ^ 32\<rparr>"]
    identifiers_never_wrap [of "''u''" "''dt''" Some "''afe/0''" "''G2''" True
      "init ''u'' ''dt''" 0]
  unfolding first_command by (simp add: init_def)

theorem identifier_wrap_counterexample:
  "fst (command Some ''afe/0'' ''G2'' True ((init ''u'' ''dt'')\<lparr>request_id := 2 ^ 32 - 1\<rparr>)) = Inr 0 \<and>
   map correlation_data
     (published (snd (command Some ''afe/0'' ''G2'' True ((init ''u'' ''dt'')\<lparr>request_id := 2 ^ 32 - 1\<rparr>))))
     = [[255, 255, 255, 255]] \<and>
   request_id (snd (command Some ''afe/0'' ''G2'' True ((init ''u'' ''dt'')\<lparr>request_id := 2 ^ 32 - 1\<rparr>)))
     = 2 ^ 32 \<and>
   fst (command Some ''afe/1'' ''G2'' True
          (snd (command Some ''afe/0'' ''G2'' True ((init ''u'' ''dt'')\<lparr>request_id := 2 ^ 32 - 1\<rparr>))))
     = Inl OverflowError"
  by (simp add: command_def Let_def create_future_def publish_def to_bytes_4 be_bytes_4 init_def)

subsection \<open>Correlation data that is absent or of another length\<close>

text \<open>
  Claim C4, as the code has it: without a \<open>correlation_data\<close> property the handler
  raises \<open>KeyError\<close>, with an empty list of values \<open>IndexError\<close>, and leaves the
  session unchanged. The length of the correlation data is not checked: octets of any
  length are read as a big-endian number, and a pending request registered under that
  number is resolved and removed.
\<close>

theorem correlation_data_unchecked:
  "(props ''correlation_data'' = None \<longrightarrow>
      handle_response loads pl props s = (Inl KeyError, s)) \<and>
   (props ''correlation_data'' = Some [] \<longrightarrow>
      handle_response loads pl props s = (Inl IndexError, s)) \<and>
   (props ''correlation_data'' = Some (b # bs) \<longrightarrow> inflight s (from_bytes b) = Some fut \<longrightarrow>
      loads pl = Some v \<longrightarrow> futures s fut = Pending \<longrightarrow>
      handle_response loads pl props s =
        (Inr (), s\<lparr>futures := (futures s)(fut := Done v),
                  inflight := (inflight s)(from_bytes b := None)\<rparr>))"
  by (simp add: hr_absent hr_resolve) (simp add: handle_response_def)

theorem correlation_data_unchecked_witness:
  "handle_response (map_of [(''0'', JInt 0)]) ''0'' Map.empty (init ''u'' ''dt'')
     = (Inl KeyError, init ''u'' ''dt'') \<and>
   handle_response (map_of [(''0'', JInt 0)]) ''0'' [''correlation_data'' \<mapsto> []] (init ''u'' ''dt'')
     = (Inl IndexError, init ''u'' ''dt'') \<and>
   fst (handle_response (map_of [(''0'', JInt 0)]) ''0'' [''correlation_data'' \<mapsto> [[0]]]
     (snd (command Some ''afe/0'' ''G2'' True (init ''u'' ''dt'')))) = Inr ()"
  using correlation_data_unchecked [of Map.empty "map_of [(''0'', JInt 0)]" "''0''" "init ''u'' ''dt''"]
    correlation_data_unchecked [of "[''correlation_data'' \<mapsto> []]" "map_of [(''0'', JInt 0)]" "''0''" "init ''u'' ''dt''"]
    correlation_data_unchecked [of "[''correlation_data'' \<mapsto> [[0]]]" "map_of [(''0'', JInt 0)]" "''0''"
      "snd (command Some ''afe/0'' ''G2'' True (init ''u'' ''dt''))" "[0]" "[]" 0 "JInt 0"]
  unfolding first_command by (simp add: from_bytes_def init_def)

theorem malformed_correlation_counterexample:
  "fst (handle_response (map_of [(''0'', JInt 0)]) ''0'' Map.empty
          (snd (command Some ''afe/0'' ''G2'' True (init ''u'' ''dt'')))) = Inl KeyError \<and>
   fst (handle_response (map_of [(''0'', JInt 0)]) ''0'' [''correlation_data'' \<mapsto> [[0]]]
          (snd (command Some ''afe/0'' ''G2'' True (init ''u'' ''dt'')))) = Inr () \<and>
   inflight (snd (command Some ''afe/0'' ''G2'' True (init ''u'' ''dt''))) 0 = Some 0 \<and>
   inflight (snd (handle_response (map_of [(''0'', JInt 0)]) ''0'' [''correlation_data'' \<mapsto> [[0]]]
          (snd (command Some ''afe/0'' ''G2'' True (init ''u'' ''dt''))))) 0 = None \<and>
   futures (snd (handle_response (map_of [(''0'', JInt 0)]) ''0'' [''correlation_data'' \<mapsto> [[0]]]
          (snd (command Some ''afe/0'' ''G2'' True (init ''u'' ''dt''))))) 0 = Done (JInt 0)"
  unfolding first_command by (simp add: handle_response_def set_result_def from_bytes_def init_def)

subsection \<open>Registration before publication\<close>

text \<open>
  Claim C5: a call of \<open>command\<close> that reaches its publish passes through four states.
  In the first two the request's identifier is not in the registry and nothing of this
  call is published; in the third the identifier is registered with the caller's pending
  future and still nothing is published; only the fourth holds the published message,
  which carries that identifier. So in no state of the call is the message out while the
  registry lacks the entry.
\<close>

theorem registered_before_published:
  assumes "command dumps path val keep s = (Inr fut, s')"
  shows "\<exists>s1 s2 s3 m.
           command_states dumps path val keep s = [s1, s2, s3, s'] \<and>
           inflight s1 (request_id s) = None \<and> published s1 = published s \<and>
           inflight s2 (request_id s) = None \<and> published s2 = published s \<and>
           inflight s3 (request_id s) = Some fut \<and> futures s3 fut = Pending \<and>
           published s3 = published s \<and>
           s' = publish m s3 \<and> inflight s' (request_id s) = Some fut \<and>
           published s' = published s @ [m] \<and>
           from_bytes (correlation_data m) = request_id s \<and>
           (\<forall>st \<in> set (command_states dumps path val keep s).
              published st = published s \<or> inflight st (request_id s) = Some fut)"
proof -
  from assms have ok: "fst (command dumps path val keep s) = Inr fut" by simp
  from command_cases_Inr [OF ok] obtain js where
    h: "request_id s \<notin> dom (inflight s)" "0 \<le> request_id s" "request_id s < 2 ^ 32"
       "dumps val = Some js" by auto
  define s1 where "s1 = s\<lparr>request_id := request_id s + 1\<rparr>"
  define s2 where "s2 = s\<lparr>request_id := request_id s + 1,
        futures := (futures s)(next_future s := Pending),
        next_future := Suc (next_future s)\<rparr>"
  define s3 where "s3 = s\<lparr>request_id := request_id s + 1,
        futures := (futures s)(next_future s := Pending),
        next_future := Suc (next_future s),
        inflight := (inflight s)(request_id s \<mapsto> next_future s)\<rparr>"
  define m where "m = \<lparr>topic = prefix s @ ''/settings/'' @ path, payload = js, qos = 0, retain = keep,
            response_topic = prefix s @ ''/response/'' @ uuid s,
            correlation_data = be_bytes 4 (request_id s)\<rparr>"
  have "command dumps path val keep s = (Inr (next_future s), publish m s3)"
    unfolding command_returns [of s dumps val js path keep, OF h]
    by (simp add: s3_def m_def publish_def)
  with assms have fut: "fut = next_future s" and s': "s' = publish m s3"
    by simp_all
  have tr: "command_states dumps path val keep s = [s1, s2, s3, s']"
    unfolding command_states_returns [of s dumps val js path keep, OF h] s'
    by (simp add: s1_def s2_def s3_def m_def)
  have none: "inflight s (request_id s) = None" using h(1) by auto
  have a: "inflight s1 (request_id s) = None" "published s1 = published s"
    "inflight s2 (request_id s) = None" "published s2 = published s"
    by (simp_all add: s1_def s2_def none)
  have b: "inflight s3 (request_id s) = Some fut" "futures s3 fut = Pending"
    "published s3 = published s"
    by (simp_all add: s3_def fut)
  have c: "inflight s' (request_id s) = Some fut" "published s' = published s @ [m]"
    by (simp_all add: s' publish_def s3_def fut)
  have d: "from_bytes (correlation_data m) = request_id s"
    using h(2,3) by (simp add: m_def from_bytes_be4)
  have e: "\<forall>st \<in> set (command_states dumps path val keep s).
              published st = published s \<or> inflight st (request_id s) = Some fut"
    unfolding tr using a b c by simp
  from tr a b s' c d e show ?thesis by blast
qed

theorem registered_before_published_witness:
  "\<exists>s1 s2 s3 m.
     command_states Some ''afe/0'' ''G2'' True (init ''u'' ''dt'')
       = [s1, s2, s3, snd (command Some ''afe/0'' ''G2'' True (init ''u'' ''dt''))] \<and>
     inflight s2 0 = None \<and> published s2 = [] \<and>
     inflight s3 0 = Some 0 \<and> futures s3 0 = Pending \<and> published s3 = [] \<and>
     snd (command Some ''afe/0'' ''G2'' True (init ''u'' ''dt'')) = publish m s3 \<and>
     published (snd (command Some ''afe/0'' ''G2'' True (init ''u'' ''dt''))) = [m] \<and>
     from_bytes (correlation_data m) = 0"
proof -
  have c: "command Some ''afe/0'' ''G2'' True (init ''u'' ''dt'')
      = (Inr 0, snd (command Some ''afe/0'' ''G2'' True (init ''u'' ''dt'')))"
    by (simp add: first_command)
  have 0: "request_id (init ''u'' ''dt'') = 0" "published (init ''u'' ''dt'') = []"
    by (simp_all add: init_def)
  from registered_before_published [OF c] show ?thesis
    unfolding 0 by (elim exE conjE, intro exI conjI) (assumption | simp)+
qed

subsection \<open>Payloads that do not decode\<close>

text \<open>
  Claim C6, as the code has it: when the identifier of a response is registered and its
  payload does not decode, the handler raises the decoder's error; it is not caught or
  logged. The session is left as it was: the entry stays in the registry and the caller's
  future stays pending.
\<close>

theorem undecodable_payload_raises:
  "props ''correlation_data'' = Some (b # bs) \<Longrightarrow> inflight s (from_bytes b) = Some fut \<Longrightarrow>
   loads pl = None \<Longrightarrow> handle_response loads pl props s = (Inl JSONDecodeError, s)"
  by (rule hr_undecodable)

theorem undecodable_payload_raises_witness:
  "handle_response (map_of [(''0'', JInt 0)]) ''{'' [''correlation_data'' \<mapsto> [[0, 0, 0, 0]]]
      (snd (command Some ''afe/0'' ''G2'' True (init ''u'' ''dt'')))
   = (Inl JSONDecodeError, snd (command Some ''afe/0'' ''G2'' True (init ''u'' ''dt''))) \<and>
   inflight (snd (command Some ''afe/0'' ''G2'' True (init ''u'' ''dt''))) 0 = Some 0 \<and>
   futures (snd (command Some ''afe/0'' ''G2'' True (init ''u'' ''dt''))) 0 = Pending"
  using undecodable_payload_raises [of "[''correlation_data'' \<mapsto> [[0, 0, 0, 0]]]" "[0, 0, 0, 0]" "[]"
      "snd (command Some ''afe/0'' ''G2'' True (init ''u'' ''dt''))" 0 "map_of [(''0'', JInt 0)]" "''{''"]
  unfolding first_command by (simp add: from_bytes_def init_def)

theorem undecodable_payload_counterexample:
  "fst (handle_response (map_of [(''0'', JInt 0)]) ''{'' [''correlation_data'' \<mapsto> [[0, 0, 0, 0]]]
      (snd (command Some ''afe/0'' ''G2'' True (init ''u'' ''dt'')))) = Inl JSONDecodeError"
  unfolding first_command by (simp add: handle_response_def from_bytes_def init_def)

subsection \<open>Commands that fail\<close>

text \<open>
  Claim C10: a call of \<open>command\<close> that raises leaves the session as it was but for
  the counter, which is advanced by one: no entry is added to the registry, and the
  session identity, the prefix and the registered entries are unchanged. The call raises
  when its identifier is already in the registry (\<open>AssertionError\<close>) and when the
  identifier does not fit into four octets (\<open>OverflowError\<close>).
\<close>

theorem failed_command_frame:
  "(fst (command dumps path val keep s) = Inl e \<longrightarrow>
      snd (command dumps path val keep s) = s\<lparr>request_id := request_id s + 1\<rparr>) \<and>
   (request_id s \<in> dom (inflight s) \<longrightarrow>
      fst (command dumps path val keep s) = Inl AssertionError) \<and>
   (request_id s \<notin> dom (inflight s) \<longrightarrow> request_id s < 0 \<or> 2 ^ 32 \<le> request_id s \<longrightarrow>
      fst (command dumps path val keep s) = Inl OverflowError)"
proof (intro conjI impI)
  assume "fst (command dumps path val keep s) = Inl e"
  then show "snd (command dumps path val keep s) = s\<lparr>request_id := request_id s + 1\<rparr>"
    by (rule command_raises)
next
  assume "request_id s \<in> dom (inflight s)"
  then show "fst (command dumps path val keep s) = Inl AssertionError"
    by (simp add: command_def Let_def)
next
  assume "request_id s \<notin> dom (inflight s)" "request_id s < 0 \<or> 2 ^ 32 \<le> request_id s"
  then show "fst (command dumps path val keep s) = Inl OverflowError"
    by (auto simp: command_def Let_def to_bytes_4)
qed

theorem failed_command_frame_witness:
  "command Some ''afe/0'' ''G2'' True ((init ''u'' ''dt'')\<lparr>request_id := 2 ^ 32\<rparr>)
     = (Inl OverflowError, (init ''u'' ''dt'')\<lparr>request_id := 2 ^ 32 + 1\<rparr>) \<and>
   command Some ''afe/0'' ''G2'' True ((init ''u'' ''dt'')\<lparr>inflight := [0 \<mapsto> 0]\<rparr>)
     = (Inl AssertionError, (init ''u'' ''dt'')\<lparr>inflight := [0 \<mapsto> 0], request_id := 1\<rparr>)"
  using failed_command_frame [of Some "''afe/0''" "''G2''" True "(init ''u'' ''dt'')\<lparr>request_id := 2 ^ 32\<rparr>" OverflowError]
    failed_command_frame [of Some "''afe/0''" "''G2''" True "(init ''u'' ''dt'')\<lparr>inflight := [0 \<mapsto> 0]\<rparr>" AssertionError]
  by (simp add: init_def prod_eq_iff)

subsection \<open>Identifiers in order of allocation\<close>

text \<open>
  Claim C7: on a new session the calls of \<open>command\<close> are given the identifiers
  0, 1, 2, ... in call order, whatever responses arrive in between: the messages
  published carry these identifiers in this order, and the identifiers are pairwise
  distinct. The run has at most \<open>2^32\<close> calls, each with a value that \<open>json.dumps\<close>
  accepts.
\<close>

theorem identifiers_in_allocation_order:
  assumes "\<forall>(path, val, keep) \<in> set (commands evs). dumps val \<noteq> None"
    and "length (commands evs) \<le> 2 ^ 32"
  shows "request_id (init u p) = 0 \<and>
         map (from_bytes \<circ> correlation_data) (published (run loads dumps evs (init u p))) =
           map int [0..<length (commands evs)] \<and>
         distinct (map (from_bytes \<circ> correlation_data) (published (run loads dumps evs (init u p))))"
proof -
  have 0: "request_id (init u p) = 0" "published (init u p) = []" by (simp_all add: init_def)
  have "int (length (commands evs)) \<le> 2 ^ 32" using assms(2) by (simp add: of_nat_le_iff [of _ "2 ^ 32", simplified])
  then have ids: "map (from_bytes \<circ> correlation_data) (published (run loads dumps evs (init u p))) =
           map int [0..<length (commands evs)]"
    using run_published_ids [OF session_inv_init assms(1), of u p loads] by (simp add: 0)
  have "distinct (map int [0..<length (commands evs)])"
    by (simp add: distinct_map inj_on_def)
  with ids 0 show ?thesis by simp
qed

theorem identifiers_in_allocation_order_witness:
  "map (from_bytes \<circ> correlation_data)
     (published (run (map_of [(''0'', JInt 0)]) Some
        [Command ''afe/0'' ''G2'' True, Response ''0'' [''correlation_data'' \<mapsto> [[0, 0, 0, 0]]],
         Command ''afe/1'' ''G10'' True, Command ''afe/0'' ''G1'' False] (init ''u'' ''dt'')))
   = [0, 1, 2]"
  using identifiers_in_allocation_order [of
      "[Command ''afe/0'' ''G2'' True, Response ''0'' [''correlation_data'' \<mapsto> [[0, 0, 0, 0]]],
         Command ''afe/1'' ''G10'' True, Command ''afe/0'' ''G1'' False]" Some "''u''" "''dt''"
      "map_of [(''0'', JInt 0)]"]
  by (simp add: upt_rec)

subsection \<open>Each caller gets its own response\<close>

text \<open>
  Claim C1: after any number of commands were issued on a session, one after the other,
  and their responses arrive in any order, each carrying the four octets of one request's
  identifier and a payload that decodes, the future of every caller is completed with the
  decoded payload of the response that carries its own identifier.
\<close>

theorem no_cross_talk:
  assumes "session_inv s" "issue dumps cmds s = (Inr futs, s1)"
    and "distinct (map fst rs)"
    and "fst ` set rs = (\<lambda>k. request_id s + int k) ` {..<length cmds}"
    and "\<forall>p \<in> snd ` set rs. loads p \<noteq> None"
  shows "\<forall>k < length cmds. \<exists>p v.
           map_of rs (request_id s + int k) = Some p \<and> loads p = Some v \<and>
           futures (deliver loads (map (case_prod response_to) rs) s1) (futs ! k) = Done v"
proof (intro allI impI)
  fix k assume k: "k < length cmds"
  from issue_registers [OF assms(1,2)] have inv1: "session_inv s1"
    and reg: "\<forall>k < length cmds. inflight s1 (request_id s + int k) = Some (futs ! k)"
    by blast+
  have pre: "\<forall>(rid, p) \<in> set rs. rid \<in> dom (inflight s1) \<and> loads p \<noteq> None"
  proof (clarify)
    fix rid p assume m: "(rid, p) \<in> set rs"
    then have "rid \<in> fst ` set rs" "p \<in> snd ` set rs" by (auto simp: rev_image_eqI)
    with assms(4,5) reg show "rid \<in> dom (inflight s1) \<and> loads p \<noteq> None" by auto
  qed
  have "request_id s + int k \<in> fst ` set rs" using k assms(4) by blast
  then obtain p where m: "(request_id s + int k, p) \<in> set rs" by auto
  then have mo: "map_of rs (request_id s + int k) = Some p"
    using assms(3) by (simp add: map_of_eq_Some_iff)
  from m pre obtain v where v: "loads p = Some v" by auto
  from deliver_resolves [OF inv1 assms(3) pre] m
  have "futures (deliver loads (map (case_prod response_to) rs) s1)
          (the (inflight s1 (request_id s + int k))) = Done (the (loads p))" by blast
  with reg k v have "futures (deliver loads (map (case_prod response_to) rs) s1) (futs ! k) = Done v"
    by simp
  with mo v show "\<exists>p v. map_of rs (request_id s + int k) = Some p \<and> loads p = Some v \<and>
           futures (deliver loads (map (case_prod response_to) rs) s1) (futs ! k) = Done v"
    by blast
qed


theorem no_cross_talk_witness:
  "futures (deliver (map_of [(''a'', JObj [(''code'', JInt 0)]), (''b'', JObj [(''code'', JInt 5)])])
      (map (case_prod response_to) [(1, ''b''), (0, ''a'')])
      (snd (issue Some [(''afe/0'', ''G2'', True), (''afe/1'', ''G10'', True)] (init ''u'' ''dt''))))
     0 = Done (JObj [(''code'', JInt 0)]) \<and>
   futures (deliver (map_of [(''a'', JObj [(''code'', JInt 0)]), (''b'', JObj [(''code'', JInt 5)])])
      (map (case_prod response_to) [(1, ''b''), (0, ''a'')])
      (snd (issue Some [(''afe/0'', ''G2'', True), (''afe/1'', ''G10'', True)] (init ''u'' ''dt''))))
     1 = Done (JObj [(''code'', JInt 5)])"
proof -
  let ?cmds = "[(''afe/0'', ''G2'', True), (''afe/1'', ''G10'', True)]"
  let ?rs = "[(1 :: int, ''b''), (0, ''a'')]"
  let ?loads = "map_of [(''a'', JObj [(''code'', JInt 0)]), (''b'', JObj [(''code'', JInt 5)])]"
  have iss: "issue Some ?cmds (init ''u'' ''dt'') = (Inr [0, 1], snd (issue Some ?cmds (init ''u'' ''dt'')))"
    using two_commands by (simp add: prod_eq_iff)
  have r0: "request_id (init ''u'' ''dt'') = 0" by (simp add: init_def)
  have ids: "fst ` set ?rs = (\<lambda>k. request_id (init ''u'' ''dt'') + int k) ` {..<length ?cmds}"
    by (auto simp: r0 lessThan_Suc)
  have dec: "\<forall>p \<in> snd ` set ?rs. ?loads p \<noteq> None" by simp
  have dist: "distinct (map fst ?rs)" by simp
  note th = no_cross_talk [OF session_inv_init iss dist ids dec, rule_format]
  from th [of 0] th [of 1] show ?thesis by (simp add: r0)
qed

subsection \<open>Resolving empties the registry\<close>

text \<open>
  Claim C8: for an identifier in the registry, a response with that identifier and a
  payload that decodes completes the registered future with the decoded payload and
  removes that entry and no other; and once a response has arrived for every registered
  identifier, the registry is empty.
\<close>

theorem resolve_removes_entry:
  assumes "session_inv s"
  shows "(props ''correlation_data'' = Some (b # bs) \<longrightarrow> inflight s (from_bytes b) = Some fut \<longrightarrow>
            loads pl = Some v \<longrightarrow>
            handle_response loads pl props s =
              (Inr (), s\<lparr>futures := (futures s)(fut := Done v),
                        inflight := (inflight s)(from_bytes b := None)\<rparr>)) \<and>
         (distinct (map fst rs) \<longrightarrow> fst ` set rs = dom (inflight s) \<longrightarrow>
            (\<forall>p \<in> snd ` set rs. loads p \<noteq> None) \<longrightarrow>
            inflight (deliver loads (map (case_prod response_to) rs) s) = Map.empty)"
proof (intro conjI impI)
  assume h: "props ''correlation_data'' = Some (b # bs)" "inflight s (from_bytes b) = Some fut"
    "loads pl = Some v"
  from session_invD [OF assms h(2)] have "futures s fut = Pending" by simp
  with h show "handle_response loads pl props s =
              (Inr (), s\<lparr>futures := (futures s)(fut := Done v),
                        inflight := (inflight s)(from_bytes b := None)\<rparr>)"
    by (rule hr_resolve)
next
  assume d: "distinct (map fst rs)" and all: "fst ` set rs = dom (inflight s)"
    and dec: "\<forall>p \<in> snd ` set rs. loads p \<noteq> None"
  have pre: "\<forall>(rid, p) \<in> set rs. rid \<in> dom (inflight s) \<and> loads p \<noteq> None"
  proof (clarify)
    fix rid p assume m: "(rid, p) \<in> set rs"
    then have "rid \<in> fst ` set rs" "p \<in> snd ` set rs" by (auto simp: rev_image_eqI)
    with all dec show "rid \<in> dom (inflight s) \<and> loads p \<noteq> None" by blast
  qed
  from deliver_resolves [OF assms d pre]
  have "inflight (deliver loads (map (case_prod response_to) rs) s) =
          (\<lambda>rid. if rid \<in> fst ` set rs then None else inflight s rid)" by blast
  also have "\<dots> = Map.empty" using all by (auto simp: fun_eq_iff)
  finally show "inflight (deliver loads (map (case_prod response_to) rs) s) = Map.empty" .
qed


theorem resolve_removes_entry_witness:
  "handle_response (map_of [(''a'', JObj [(''code'', JInt 0)])]) ''a''
     [''correlation_data'' \<mapsto> [[0, 0, 0, 0]]]
     (snd (command Some ''afe/0'' ''G2'' True (init ''u'' ''dt''))) =
   (Inr (), (snd (command Some ''afe/0'' ''G2'' True (init ''u'' ''dt'')))
      \<lparr>futures := (futures (snd (command Some ''afe/0'' ''G2'' True (init ''u'' ''dt''))))
                    (0 := Done (JObj [(''code'', JInt 0)])),
       inflight := Map.empty\<rparr>) \<and>
   inflight (deliver (map_of [(''a'', JObj [(''code'', JInt 0)])])
      (map (case_prod response_to) [(0, ''a'')])
      (snd (command Some ''afe/0'' ''G2'' True (init ''u'' ''dt'')))) = Map.empty"
proof -
  let ?s = "snd (command Some ''afe/0'' ''G2'' True (init ''u'' ''dt''))"
  have inv: "session_inv ?s" using session_inv_init by (rule session_inv_command)
  have infl: "inflight ?s = [0 \<mapsto> 0]" unfolding first_command by simp
  note th = resolve_removes_entry [OF inv, of "[''correlation_data'' \<mapsto> [[0, 0, 0, 0]]]"
      "[0, 0, 0, 0]" "[]" 0 "map_of [(''a'', JObj [(''code'', JInt 0)])]" "''a''"
      "JObj [(''code'', JInt 0)]" "[(0, ''a'')]"]
  then show ?thesis by (simp add: infl from_bytes_def)
qed

subsection \<open>The exit status of the command line\<close>



end
